theory Spec2Isabelle
  imports Main
begin

section \<open>Runtime values\<close>

text \<open>
  The validator \<open>JSONCheck\<close> (json-validator.js) and the classifier \<open>getType\<close>
  (helpers) work on plain data: what a JSON document holds, the value \<open>undefined\<close>
  that a missing property reads as, and the regular expression \<open>/each/\<close> that marks an
  each-clause in a schema.

  \<^item> A number is modelled by its integer value.
  \<^item> A regular expression is modelled by the text its \<open>toString()\<close> gives.
  \<^item> An object is the list of its own enumerable properties in the order a
    \<open>for ... in\<close> loop visits them; a key occurs once.
  \<^item> The input and the schema are separate data: no array, object or regular expression
    of one is the same object as one of the other, so \<open>===\<close> between two of them is
    false.
\<close>

datatype jsval =
    JUndefined
  | JNull
  | JBool bool
  | JNum int
  | JStr string
  | JRegExp string
  | JArr "jsval list"
  | JObj "(string \<times> jsval) list"

text \<open>
  The code has no \<open>throw\<close> of its own, but the language raises a \<open>TypeError\<close> when
  a property of \<open>null\<close> or \<open>undefined\<close> is read and when a value that is not a function
  is called. \<open>Unmodelled\<close> marks the few places where the result depends on a part of
  the language that this development does not describe (the conversion of a numeric-looking
  string or of an array to a number, a property inherited from \<open>Object.prototype\<close>): there
  the model gives no verdict rather than a wrong one.
\<close>

datatype error = TypeError | Unmodelled

definition bindE :: "error + 'a \<Rightarrow> ('a \<Rightarrow> error + 'b) \<Rightarrow> error + 'b" where
  "bindE m f = (case m of Inl e \<Rightarrow> Inl e | Inr x \<Rightarrow> f x)"

text \<open>\<open>xs.map(f)\<close>: every element is visited in order; the first exception ends the call.\<close>

fun mapE :: "('a \<Rightarrow> error + 'b) \<Rightarrow> 'a list \<Rightarrow> error + 'b list" where
  "mapE f [] = Inr []"
| "mapE f (x # xs) = bindE (f x) (\<lambda>y. bindE (mapE f xs) (\<lambda>ys. Inr (y # ys)))"

text \<open>
  The loop \<open>for (k in ...) { valid = f(k); if (valid == false) return false }; return true\<close>
  of lines 232 to 238: it stops at the first key that fails.
\<close>

fun forE :: "('a \<Rightarrow> error + bool) \<Rightarrow> 'a list \<Rightarrow> error + bool" where
  "forE f [] = Inr True"
| "forE f (x # xs) = bindE (f x) (\<lambda>valid. if valid = False then Inr False else forE f xs)"

subsection \<open>Strings and property names\<close>

definition digit_char :: "nat \<Rightarrow> char" where
  "digit_char n = ''0123456789'' ! n"

text \<open>The property name of an array index: its decimal numeral.\<close>

fun show_nat :: "nat \<Rightarrow> string" where
  "show_nat n = (if n < 10 then [digit_char n] else show_nat (n div 10) @ [digit_char (n mod 10)])"

declare show_nat.simps [simp del]

text \<open>\<open>s.split(c)\<close> for a one-character separator: empty pieces are kept.\<close>

fun split_on :: "char \<Rightarrow> string \<Rightarrow> string list" where
  "split_on c [] = [[]]"
| "split_on c (x # xs) =
     (if x = c then [] # split_on c xs
      else (case split_on c xs of [] \<Rightarrow> [[x]] | p # ps \<Rightarrow> (x # p) # ps))"

subsection \<open>Conversion to a number\<close>

text \<open>
  \<open>getType\<close> compares \<open>input.length\<close> with \<open>0\<close> and the tuple loop compares its counter
  with \<open>validatorItemArr.length\<close>; on an object the property \<open>length\<close> is ordinary data, so
  both comparisons convert an arbitrary value to a number. \<open>None\<close> stands for \<open>NaN\<close>.

  A string of printable characters with no digit that is not an \<open>Infinity\<close> literal is not
  a numeric literal, so it converts to \<open>NaN\<close>; other strings, and arrays (which convert
  through their joined text), are left unmodelled. An object converts through
  \<open>valueOf\<close> and \<open>toString\<close>: an own data property \<open>toString\<close> is not callable and the
  inherited \<open>valueOf\<close> returns the object itself, so the conversion raises; otherwise the
  inherited \<open>toString\<close> gives \<open>[object Object]\<close>, which is \<open>NaN\<close>.
\<close>

definition plain_char :: "char \<Rightarrow> bool" where
  "plain_char c =
     (33 \<le> (of_char c :: nat) \<and> (of_char c :: nat) \<le> 126 \<and> c \<notin> set ''0123456789'')"

definition non_numeric :: "string \<Rightarrow> bool" where
  "non_numeric s =
     (s \<noteq> [] \<and> list_all plain_char s \<and> s \<notin> set [''Infinity'', ''+Infinity'', ''-Infinity''])"

fun ToNumber :: "jsval \<Rightarrow> error + int option" where
  "ToNumber JUndefined = Inr None"
| "ToNumber JNull = Inr (Some 0)"
| "ToNumber (JBool b) = Inr (Some (if b then 1 else 0))"
| "ToNumber (JNum n) = Inr (Some n)"
| "ToNumber (JStr s) = (if non_numeric s then Inr None else Inl Unmodelled)"
| "ToNumber (JRegExp r) = Inr None"
| "ToNumber (JArr xs) = Inl Unmodelled"
| "ToNumber (JObj kvs) = (if map_of kvs ''toString'' \<noteq> None then Inl TypeError else Inr None)"

section \<open>The classifier \<open>getType\<close>\<close>

fun typeof :: "jsval \<Rightarrow> string" where
  "typeof JUndefined = ''undefined''"
| "typeof JNull = ''object''"
| "typeof (JBool b) = ''boolean''"
| "typeof (JNum n) = ''number''"
| "typeof (JStr s) = ''string''"
| "typeof (JRegExp r) = ''object''"
| "typeof (JArr xs) = ''object''"
| "typeof (JObj kvs) = ''object''"

text \<open>The property \<open>length\<close> as the value reads it.\<close>

fun get_length :: "jsval \<Rightarrow> jsval" where
  "get_length (JArr xs) = JNum (int (length xs))"
| "get_length (JStr s) = JNum (int (length s))"
| "get_length (JObj kvs) = (case map_of kvs ''length'' of Some v \<Rightarrow> v | None \<Rightarrow> JUndefined)"
| "get_length v = JUndefined"

text \<open>The keys a \<open>for ... in\<close> loop visits.\<close>

fun for_in_keys :: "jsval \<Rightarrow> string list" where
  "for_in_keys (JArr xs) = map show_nat [0..<length xs]"
| "for_in_keys (JObj kvs) = map fst kvs"
| "for_in_keys v = []"

text \<open>
  \<open>input.hasOwnProperty(k)\<close>. An array inherits the method. On an object the name is
  looked up like any other: an own data property \<open>hasOwnProperty\<close> shadows the method,
  and calling it raises.
\<close>

fun hasOwnProperty :: "jsval \<Rightarrow> string \<Rightarrow> error + bool" where
  "hasOwnProperty (JArr xs) k = Inr (k \<in> set (for_in_keys (JArr xs)) \<or> k = ''length'')"
| "hasOwnProperty (JObj kvs) k =
     (if map_of kvs ''hasOwnProperty'' \<noteq> None then Inl TypeError
      else Inr (map_of kvs k \<noteq> None))"
| "hasOwnProperty v k = Inr False"

text \<open>\<open>Object.prototype.toString.call(input).slice(8,-1)\<close>.\<close>

fun class_name :: "jsval \<Rightarrow> string" where
  "class_name (JArr xs) = ''Array''"
| "class_name (JRegExp r) = ''RegExp''"
| "class_name v = ''Object''"

text \<open>
  \<open>getType\<close>, lines 249 to 266 of the helpers. The duck test
  \<open>input.length !== undefined && input.length > 0 && input.hasOwnProperty(input.length - 1)\<close>
  is evaluated left to right.
\<close>

definition getType :: "jsval \<Rightarrow> error + string" where
  "getType input =
     (let simpleType = typeof input in
      if simpleType \<noteq> ''object'' then Inr simpleType
      else if input = JNull then Inr ''null''
      else
        bindE (if get_length input = JUndefined then Inr False
               else bindE (ToNumber (get_length input)) (\<lambda>len.
                    case len of
                      None \<Rightarrow> Inr False
                    | Some n \<Rightarrow>
                        if n > 0 then hasOwnProperty input (show_nat (nat (n - 1)))
                        else Inr False))
          (\<lambda>duck.
        if duck then Inr ''arraylike''
        else if for_in_keys input \<noteq> [] then Inr ''objectlike''
        else Inr (class_name input)))"

section \<open>The validator \<open>JSONCheck\<close>\<close>

fun str_of :: "jsval \<Rightarrow> string" where
  "str_of (JStr s) = s"
| "str_of v = []"

fun regexp_toString :: "jsval \<Rightarrow> string" where
  "regexp_toString (JRegExp r) = r"
| "regexp_toString v = []"

text \<open>
  \<open>x[i]\<close> for a counter \<open>i\<close>: reading a property of \<open>undefined\<close> or \<open>null\<close> raises; a
  string gives its character, an array its element, an object its own property of that
  name; a missing property reads as \<open>undefined\<close>.
\<close>

fun get_index :: "jsval \<Rightarrow> nat \<Rightarrow> error + jsval" where
  "get_index JUndefined i = Inl TypeError"
| "get_index JNull i = Inl TypeError"
| "get_index (JStr s) i = Inr (if i < length s then JStr [s ! i] else JUndefined)"
| "get_index (JArr xs) i = Inr (if i < length xs then xs ! i else JUndefined)"
| "get_index (JObj kvs) i =
     Inr (case map_of kvs (show_nat i) of Some v \<Rightarrow> v | None \<Rightarrow> JUndefined)"
| "get_index v i = Inr JUndefined"

text \<open>
  The properties every object inherits from \<open>Object.prototype\<close> (from the language
  standard, not from the repository): \<open>inputData[k]\<close> finds them when the object has no
  own property \<open>k\<close>. Their values are functions, which are not data.
\<close>

definition object_prototype_keys :: "string list" where
  "object_prototype_keys =
     [''constructor'', ''hasOwnProperty'', ''isPrototypeOf'', ''propertyIsEnumerable'',
      ''toLocaleString'', ''toString'', ''valueOf'', ''__proto__'',
      ''__defineGetter__'', ''__defineSetter__'', ''__lookupGetter__'', ''__lookupSetter__'']"

text \<open>
  \<open>x[k]\<close> for a key \<open>k\<close> of the object schema (line 233). It is only reached with
  object-like \<open>x\<close>, which is an object (lemma \<open>objectlike_JObj\<close> below).
\<close>

fun get_key :: "jsval \<Rightarrow> string \<Rightarrow> error + jsval" where
  "get_key (JObj kvs) k =
     (case map_of kvs k of
        Some v \<Rightarrow> Inr v
      | None \<Rightarrow> if k \<in> set object_prototype_keys then Inl Unmodelled else Inr JUndefined)"
| "get_key v k = Inl Unmodelled"

text \<open>
  The receiver of \<open>.map\<close> and \<open>.slice\<close>: an array has the methods; an object does not
  (an own data property of that name is not callable), so the call raises.
\<close>

fun as_array :: "jsval \<Rightarrow> error + jsval list" where
  "as_array (JArr xs) = Inr xs"
| "as_array v = Inl TypeError"

text \<open>
  How often \<open>for (let i = 0; i < validatorItemArr.length; i++)\<close> runs: the comparison
  converts the length to a number and is false for \<open>NaN\<close>.
\<close>

definition loop_bound :: "jsval \<Rightarrow> error + nat" where
  "loop_bound v =
     bindE (ToNumber (get_length v)) (\<lambda>len. Inr (case len of None \<Rightarrow> 0 | Some n \<Rightarrow> nat n))"

text \<open>\<open>a === b\<close> on data of separate origin.\<close>

fun strict_eq :: "jsval \<Rightarrow> jsval \<Rightarrow> bool" where
  "strict_eq JUndefined JUndefined = True"
| "strict_eq JNull JNull = True"
| "strict_eq (JBool a) (JBool b) = (a = b)"
| "strict_eq (JNum a) (JNum b) = (a = b)"
| "strict_eq (JStr a) (JStr b) = (a = b)"
| "strict_eq a b = False"

text \<open>The measure of the recursion: every recursive call is on a smaller validator.\<close>

fun vsize :: "jsval \<Rightarrow> nat" where
  "vsize (JStr s) = Suc (length s)"
| "vsize (JArr xs) = Suc (sum_list (map vsize xs))"
| "vsize (JObj kvs) = Suc (sum_list (map (\<lambda>kv. vsize (snd kv)) kvs))"
| "vsize v = Suc 0"

lemma bindE_cong [fundef_cong]:
  "m = m' \<Longrightarrow> (\<And>x. m' = Inr x \<Longrightarrow> f x = g x) \<Longrightarrow> bindE m f = bindE m' g"
  by (auto simp: bindE_def split: sum.splits)

lemma mapE_cong [fundef_cong]:
  "xs = ys \<Longrightarrow> (\<And>x. x \<in> set ys \<Longrightarrow> f x = g x) \<Longrightarrow> mapE f xs = mapE g ys"
  by (induction ys arbitrary: xs) (auto simp: bindE_def split: sum.splits)

lemma forE_cong [fundef_cong]:
  "xs = ys \<Longrightarrow> (\<And>x. x \<in> set ys \<Longrightarrow> f x = g x) \<Longrightarrow> forE f xs = forE g ys"
  by (induction ys arbitrary: xs) (auto simp: bindE_def split: sum.splits)

text \<open>
  \<open>JSONCheck\<close>, lines 217 to 303 of json-validator.js. \<open>validator0\<close> is the parameter
  as passed; \<open>validator\<close> is its value after the block of lines 222 to 228, which replaces
  a string with a pipe by the array of its pieces.
\<close>

function JSONCheck :: "jsval \<Rightarrow> jsval \<Rightarrow> error + bool" where
  "JSONCheck inputData validator0 =
    bindE (getType validator0) (\<lambda>validatorType0.
    bindE (getType inputData) (\<lambda>inputType.
    let pipes = (validatorType0 = ''string'' \<and> CHR ''|'' \<in> set (str_of validator0));
        validator = (if pipes then JArr (map JStr (split_on (CHR ''|'') (str_of validator0)))
                     else validator0)
    in
    bindE (if pipes then getType validator else Inr validatorType0) (\<lambda>validatorType.
    if validatorType = ''objectlike'' then
      (if inputType \<noteq> ''objectlike'' then Inr False
       else forE (\<lambda>k. bindE (get_key inputData k) (\<lambda>v.
                      bindE (get_key validator k) (\<lambda>s. JSONCheck v s)))
              (for_in_keys validator))
    else if validatorType = ''arraylike'' then
      (if inputType = ''arraylike'' then
         bindE (as_array validator) (\<lambda>candidates.
         bindE (mapE (\<lambda>validatorItemArr.
             bindE (get_index validatorItemArr 0) (\<lambda>first.
             bindE (getType first) (\<lambda>firstType.
             if firstType = ''RegExp'' \<and> regexp_toString first = ''/each/'' then
               bindE (as_array validatorItemArr) (\<lambda>items.
               let validations = drop 1 items in
               bindE (as_array inputData) (\<lambda>inputItems.
               bindE (mapE (\<lambda>inputDataItem.
                   bindE (mapE (\<lambda>validationItem. JSONCheck inputDataItem validationItem)
                            validations)
                     (\<lambda>res. Inr (length (filter (\<lambda>valid. valid = True) res) > 0)))
                   inputItems)
                 (\<lambda>mapRes. Inr (length (filter (\<lambda>item. item = False) mapRes) = 0))))
             else
               bindE (getType validatorItemArr) (\<lambda>validatorItemArrType.
               if validatorItemArrType = ''string'' then JSONCheck inputData validatorItemArr
               else
                 bindE (loop_bound validatorItemArr) (\<lambda>n.
                 bindE (mapE (\<lambda>i. bindE (get_index inputData i) (\<lambda>v.
                                   bindE (get_index validatorItemArr i) (\<lambda>s. JSONCheck v s)))
                          [0..<n])
                   (\<lambda>validArr.
                      Inr (length (filter (\<lambda>item. item = False) validArr) = 0)))))))
             candidates)
           (\<lambda>valid. Inr (length (filter (\<lambda>validItem. validItem = True) valid) > 0)))
       else
         bindE (as_array validator) (\<lambda>items.
         bindE (mapE (\<lambda>validatorItem. JSONCheck inputData validatorItem) items)
           (\<lambda>res. Inr (length (filter (\<lambda>b. b = True) res) > 0))))
    else
      (if validatorType = ''string'' \<and> CHR 0x22 \<notin> set (str_of validator) then
         (if inputType = str_of validator then Inr True else Inr False)
       else
         let validatorVal = (if validatorType = ''string''
                             then JStr (concat (split_on (CHR 0x22) (str_of validator)))
                             else validator)
         in Inr (strict_eq inputData validatorVal)))))"
  by pat_completeness auto

section \<open>Classification facts\<close>

lemma getType_JArr: "getType (JArr xs) = Inr (if xs \<noteq> [] then ''arraylike'' else ''Array'')"
  by (cases xs) (auto simp: getType_def bindE_def)

lemma getType_scalar:
  "getType JUndefined = Inr ''undefined''"
  "getType JNull = Inr ''null''"
  "getType (JBool b) = Inr ''boolean''"
  "getType (JNum n) = Inr ''number''"
  "getType (JStr s) = Inr ''string''"
  "getType (JRegExp r) = Inr ''RegExp''"
  by (simp_all add: getType_def bindE_def)

lemma getType_JObj_cases:
  "getType (JObj kvs) = Inr t \<Longrightarrow> t = ''arraylike'' \<or> t = ''objectlike'' \<or> t = ''Object''"
  by (auto simp: getType_def bindE_def split: if_splits sum.splits option.splits)

lemma getType_string_iff: "getType v = Inr ''string'' \<longleftrightarrow> (\<exists>s. v = JStr s)"
  by (cases v) (auto simp: getType_scalar getType_JArr dest: getType_JObj_cases)

lemma getType_JObj_Nil: "getType (JObj []) = Inr ''Object''"
  by (simp add: getType_def bindE_def)

lemma objectlike_JObj:
  assumes "getType v = Inr ''objectlike''"
  shows "\<exists>kvs. v = JObj kvs \<and> kvs \<noteq> []"
proof (cases v)
  case (JObj kvs)
  with assms show ?thesis
    by (cases kvs) (auto simp: getType_JObj_Nil)
qed (use assms in \<open>auto simp: getType_scalar getType_JArr split: if_splits\<close>)

section \<open>Termination\<close>

lemma split_on_not_Nil: "split_on c s \<noteq> []"
  by (induction s) (auto split: list.splits)

lemma split_on_lengths:
  "length (concat (split_on c s)) + length (split_on c s) = Suc (length s)"
proof (induction s)
  case Nil
  show ?case by simp
next
  case (Cons x xs)
  obtain p ps where r: "split_on c xs = p # ps"
    using split_on_not_Nil [of c xs] by (cases "split_on c xs") auto
  with Cons show ?case by auto
qed

lemma split_on_two: "c \<in> set s \<Longrightarrow> 2 \<le> length (split_on c s)"
proof (induction s)
  case Nil
  then show ?case by simp
next
  case (Cons x xs)
  obtain p ps where r: "split_on c xs = p # ps"
    using split_on_not_Nil [of c xs] by (cases "split_on c xs") auto
  with Cons show ?case by (cases "x = c") auto
qed

lemma length_le_concat: "p \<in> set ps \<Longrightarrow> length p \<le> length (concat ps)"
  by (induction ps) auto

lemma split_on_shorter:
  assumes "c \<in> set s" and "p \<in> set (split_on c s)"
  shows "length p < length s"
  using split_on_lengths [of c s] split_on_two [OF assms(1)] length_le_concat [OF assms(2)]
  by arith

lemma vsize_member: "x \<in> set xs \<Longrightarrow> vsize x \<le> sum_list (map vsize xs)"
  by (induction xs) auto

lemma vsize_value:
  "(k, v) \<in> set kvs \<Longrightarrow> vsize v \<le> sum_list (map (\<lambda>kv. vsize (snd kv)) kvs)"
  by (induction kvs) auto

lemma as_array_Inr: "as_array v = Inr xs \<longleftrightarrow> v = JArr xs"
  by (cases v) auto

lemma get_index_vsize: "get_index v i = Inr x \<Longrightarrow> vsize x \<le> vsize v"
proof (cases v)
  case (JArr xs)
  assume "get_index v i = Inr x"
  with JArr show ?thesis
    using vsize_member [of "xs ! i" xs] by (auto split: if_splits)
next
  case (JObj kvs)
  assume "get_index v i = Inr x"
  with JObj show ?thesis
    using vsize_value [of "show_nat i" x kvs] by (auto split: option.splits dest: map_of_SomeD)
qed (auto split: if_splits)

lemma candidate_vsize:
  assumes "getType validator0 = Inr t"
    and "as_array (if t = ''string'' \<and> CHR ''|'' \<in> set (str_of validator0)
                   then JArr (map JStr (split_on (CHR ''|'') (str_of validator0)))
                   else validator0) = Inr cs"
    and "c \<in> set cs"
  shows "vsize c < vsize validator0"
proof (cases "t = ''string'' \<and> CHR ''|'' \<in> set (str_of validator0)")
  case True
  then obtain s where s: "validator0 = JStr s"
    using assms(1) getType_string_iff by auto
  with True assms obtain p where "c = JStr p" "p \<in> set (split_on (CHR ''|'') s)"
    by auto
  with True s show ?thesis
    using split_on_shorter [of "CHR ''|''" s p] by simp
next
  case False
  with assms have "validator0 = JArr cs" by (simp add: as_array_Inr)
  with assms(3) show ?thesis
    using vsize_member [of c cs] by simp
qed

lemma get_key_own_vsize:
  "k \<in> set (for_in_keys v) \<Longrightarrow> get_key v k = Inr x \<Longrightarrow> vsize x < vsize v"
proof (cases v)
  case (JObj kvs)
  assume "k \<in> set (for_in_keys v)" "get_key v k = Inr x"
  with JObj have "(k, x) \<in> set kvs"
    by (auto split: option.splits if_splits dest: map_of_SomeD simp: map_of_eq_None_iff)
  with JObj show ?thesis
    using vsize_value [of k x kvs] by simp
qed auto

termination JSONCheck
proof (relation "measure (\<lambda>(i, v). vsize v)", goal_cases)
  case 1
  show ?case by simp
next
  case (2 inputData validator0 x xa xb xc xd xe xf xg)
  have "\<not> xb"
  proof
    assume "xb"
    with 2 show False
      by (simp add: getType_JArr split_on_not_Nil)
  qed
  with 2 show ?case
    using get_key_own_vsize [of xe validator0 xg] by simp
next
  case (3 inputData validator0 x xa xb xc xd xe xf xg xh xi xj xk xl xm)
  from 3 have a: "vsize xf < vsize validator0"
    using candidate_vsize [of validator0 x xe xf] by simp
  from 3 have "xf = JArr xi" by (simp add: as_array_Inr)
  moreover from 3 have "xm \<in> set xi" by (auto dest: in_set_dropD)
  ultimately have "vsize xm < vsize xf"
    using vsize_member [of xm xi] by simp
  with a show ?case by simp
next
  case (4 inputData validator0 x xa xb xc xd xe xf xg xh xi)
  then show ?case
    using candidate_vsize [of validator0 x xe xf] by simp
next
  case (5 inputData validator0 x xa xb xc xd xe xf xg xh xi xj xk xl xm)
  from 5 have a: "vsize xf < vsize validator0"
    using candidate_vsize [of validator0 x xe xf] by simp
  from 5 have "vsize xm \<le> vsize xf" by (simp add: get_index_vsize)
  with a show ?case by simp
next
  case (6 inputData validator0 x xa xb xc xd xe xf)
  then show ?case
    using candidate_vsize [of validator0 x xe xf] by simp
qed

declare JSONCheck.simps [simp del]


section \<open>Derived notions\<close>

text \<open>
  The function that line 244 passes to \<open>validator.map\<close>, under a name: what one
  candidate of a candidate list returns for a sequence-kind input. Its text is the one
  inside \<open>JSONCheck\<close> (lemma \<open>JSONCheck_unfold\<close>).
\<close>

definition check_candidate :: "jsval \<Rightarrow> jsval \<Rightarrow> error + bool" where
  "check_candidate inputData = (\<lambda>validatorItemArr.
     bindE (get_index validatorItemArr 0) (\<lambda>first.
     bindE (getType first) (\<lambda>firstType.
     if firstType = ''RegExp'' \<and> regexp_toString first = ''/each/'' then
       bindE (as_array validatorItemArr) (\<lambda>items.
       let validations = drop 1 items in
       bindE (as_array inputData) (\<lambda>inputItems.
       bindE (mapE (\<lambda>inputDataItem.
           bindE (mapE (\<lambda>validationItem. JSONCheck inputDataItem validationItem)
                    validations)
             (\<lambda>res. Inr (length (filter (\<lambda>valid. valid = True) res) > 0)))
           inputItems)
         (\<lambda>mapRes. Inr (length (filter (\<lambda>item. item = False) mapRes) = 0))))
     else
       bindE (getType validatorItemArr) (\<lambda>validatorItemArrType.
       if validatorItemArrType = ''string'' then JSONCheck inputData validatorItemArr
       else
         bindE (loop_bound validatorItemArr) (\<lambda>n.
         bindE (mapE (\<lambda>i. bindE (get_index inputData i) (\<lambda>v.
                           bindE (get_index validatorItemArr i) (\<lambda>s. JSONCheck v s)))
                  [0..<n])
           (\<lambda>validArr.
              Inr (length (filter (\<lambda>item. item = False) validArr) = 0)))))))"

text \<open>
  What a schema string without a pipe decides, given the input and its type tag: the
  type comparison of lines 288 to 294 when it has no quote, else the comparison of lines
  298 to 302 with the string stripped of its quotes.
\<close>

definition scalar_match :: "jsval \<Rightarrow> string \<Rightarrow> string \<Rightarrow> bool" where
  "scalar_match x t p =
     (if CHR 0x22 \<notin> set p then t = p
      else strict_eq x (JStr (concat (split_on (CHR 0x22) p))))"

text \<open>The expression \<open>l || r\<close> on two results: \<open>r\<close> is not evaluated when \<open>l\<close> is true.\<close>

definition js_or :: "error + bool \<Rightarrow> error + bool \<Rightarrow> error + bool" where
  "js_or l r = bindE l (\<lambda>b. if b then Inr True else r)"

text \<open>\<open>x[i]\<close> where reading cannot raise: the value, \<open>undefined\<close> when it is missing.\<close>

definition at_index :: "jsval \<Rightarrow> nat \<Rightarrow> jsval" where
  "at_index v i = (case get_index v i of Inr x \<Rightarrow> x | Inl e \<Rightarrow> JUndefined)"

text \<open>\<open>validatorItemArr.length\<close> as the tuple loop uses it: the number of positions it visits.\<close>

definition js_length :: "jsval \<Rightarrow> nat" where
  "js_length v = (case loop_bound v of Inr n \<Rightarrow> n | Inl e \<Rightarrow> 0)"

text \<open>A candidate whose first element is the sentinel \<open>/each/\<close> (lines 246 to 248).\<close>

definition each_clause :: "jsval \<Rightarrow> bool" where
  "each_clause c = (case get_index c 0 of Inr (JRegExp r) \<Rightarrow> r = ''/each/'' | _ \<Rightarrow> False)"

section \<open>Unfolding the validator\<close>


lemma mapE_Inr: "(\<And>x. x \<in> set xs \<Longrightarrow> f x = Inr (g x)) \<Longrightarrow> mapE f xs = Inr (map g xs)"
  by (induction xs) (auto simp: bindE_def)

lemma split_on_none: "c \<notin> set s \<Longrightarrow> split_on c s = [s]"
  by (induction s) (auto split: list.splits)

lemma split_on_no_sep: "p \<in> set (split_on c s) \<Longrightarrow> c \<notin> set p"
proof (induction s arbitrary: p)
  case Nil
  then show ?case by simp
next
  case (Cons x xs)
  obtain q qs where r: "split_on c xs = q # qs"
    using split_on_not_Nil [of c xs] by (cases "split_on c xs") auto
  with Cons show ?case by (auto split: if_splits)
qed

lemma split_on_append:
  "split_on c (a @ c # b) = split_on c a @ split_on c b"
proof (induction a)
  case Nil
  show ?case by simp
next
  case (Cons x xs)
  obtain q qs where r: "split_on c xs = q # qs"
    using split_on_not_Nil [of c xs] by (cases "split_on c xs") auto
  with Cons show ?case by auto
qed

lemma concat_split_on: "concat (split_on c s) = filter (\<lambda>ch. ch \<noteq> c) s"
proof (induction s)
  case Nil
  show ?case by simp
next
  case (Cons x xs)
  obtain q qs where r: "split_on c xs = q # qs"
    using split_on_not_Nil [of c xs] by (cases "split_on c xs") auto
  with Cons show ?case by auto
qed

lemma strict_eq_JStr: "strict_eq x (JStr s) = (x = JStr s)"
  by (cases x) auto


lemma bindE_Inr [simp]: "bindE (Inr x) f = f x"
  by (simp add: bindE_def)

lemma bindE_Inl [simp]: "bindE (Inl e) f = Inl e"
  by (simp add: bindE_def)

lemma JSONCheck_unfold:
  "JSONCheck inputData validator0 =
    bindE (getType validator0) (\<lambda>validatorType0.
    bindE (getType inputData) (\<lambda>inputType.
    let pipes = (validatorType0 = ''string'' \<and> CHR ''|'' \<in> set (str_of validator0));
        validator = (if pipes then JArr (map JStr (split_on (CHR ''|'') (str_of validator0)))
                     else validator0)
    in
    bindE (if pipes then getType validator else Inr validatorType0) (\<lambda>validatorType.
    if validatorType = ''objectlike'' then
      (if inputType \<noteq> ''objectlike'' then Inr False
       else forE (\<lambda>k. bindE (get_key inputData k) (\<lambda>v.
                      bindE (get_key validator k) (\<lambda>s. JSONCheck v s)))
              (for_in_keys validator))
    else if validatorType = ''arraylike'' then
      (if inputType = ''arraylike'' then
         bindE (as_array validator) (\<lambda>candidates.
         bindE (mapE (check_candidate inputData) candidates)
           (\<lambda>valid. Inr (length (filter (\<lambda>validItem. validItem = True) valid) > 0)))
       else
         bindE (as_array validator) (\<lambda>items.
         bindE (mapE (\<lambda>validatorItem. JSONCheck inputData validatorItem) items)
           (\<lambda>res. Inr (length (filter (\<lambda>b. b = True) res) > 0))))
    else
      (if validatorType = ''string'' \<and> CHR 0x22 \<notin> set (str_of validator) then
         (if inputType = str_of validator then Inr True else Inr False)
       else
         let validatorVal = (if validatorType = ''string''
                             then JStr (concat (split_on (CHR 0x22) (str_of validator)))
                             else validator)
         in Inr (strict_eq inputData validatorVal)))))"
  by (subst JSONCheck.simps) (simp only: check_candidate_def)

lemma JSONCheck_piece:
  "getType x = Inr t \<Longrightarrow> CHR ''|'' \<notin> set p \<Longrightarrow> JSONCheck x (JStr p) = Inr (scalar_match x t p)"
  by (subst JSONCheck_unfold) (simp add: getType_scalar scalar_match_def)

lemma JSONCheck_input_error:
  "getType v = Inr vt \<Longrightarrow> getType x = Inl e \<Longrightarrow> JSONCheck x v = Inl e"
  by (subst JSONCheck_unfold) simp

lemma JSONCheck_validator_error:
  "getType v = Inl e \<Longrightarrow> JSONCheck x v = Inl e"
  by (subst JSONCheck_unfold) simp

lemma check_candidate_JStr:
  "check_candidate x (JStr p) = JSONCheck x (JStr p)"
  by (simp add: check_candidate_def getType_scalar)

lemma JSONCheck_string:
  "JSONCheck x (JStr s) =
     bindE (getType x) (\<lambda>t. Inr (list_ex (scalar_match x t) (split_on (CHR ''|'') s)))"
proof (cases "getType x")
  case (Inl e)
  then show ?thesis
    by (simp add: JSONCheck_input_error [of "JStr s" "''string''" x e] getType_scalar)
next
  case (Inr t)
  show ?thesis
  proof (cases "CHR ''|'' \<in> set s")
    case False
    with Inr show ?thesis
      by (simp add: JSONCheck_piece split_on_none)
  next
    case True
    let ?ps = "split_on (CHR ''|'') s"
    have piece: "\<And>c. c \<in> set (map JStr ?ps) \<Longrightarrow>
        JSONCheck x c = Inr (scalar_match x t (str_of c))"
      using Inr by (auto simp: JSONCheck_piece split_on_no_sep)
    have flat: "mapE (JSONCheck x) (map JStr ?ps)
        = Inr (map (\<lambda>c. scalar_match x t (str_of c)) (map JStr ?ps))"
      by (rule mapE_Inr) (rule piece)
    have cand: "mapE (check_candidate x) (map JStr ?ps)
        = Inr (map (\<lambda>c. scalar_match x t (str_of c)) (map JStr ?ps))"
      by (rule mapE_Inr) (auto simp: check_candidate_JStr piece)
    show ?thesis
      using True Inr
      by (subst JSONCheck_unfold)
        (auto simp add: getType_scalar getType_JArr split_on_not_Nil flat cand
          list_ex_iff Let_def filter_empty_conv)
  qed
qed

lemma JSONCheck_objectlike:
  assumes "getType S = Inr ''objectlike''" and "getType x = Inr ''objectlike''"
  shows "JSONCheck x S =
     forE (\<lambda>k. bindE (get_key x k) (\<lambda>v. bindE (get_key S k) (\<lambda>s. JSONCheck v s)))
       (for_in_keys S)"
  using assms by (subst JSONCheck_unfold) simp

lemma filter_id_nonempty: "(filter (\<lambda>b. b) bs \<noteq> []) = (True \<in> set bs)"
  by (induction bs) auto

lemma filter_Not_empty: "(filter Not bs = []) = (False \<notin> set bs)"
  by (induction bs) auto

lemma JSONCheck_candidates:
  assumes "getType x = Inr ''arraylike''" and "cs \<noteq> []"
  shows "JSONCheck x (JArr cs) =
     bindE (mapE (check_candidate x) cs) (\<lambda>valid. Inr (True \<in> set valid))"
  using assms by (subst JSONCheck_unfold) (simp add: getType_JArr filter_id_nonempty)

lemma getType_RegExp_iff: "getType v = Inr ''RegExp'' \<longleftrightarrow> (\<exists>r. v = JRegExp r)"
  by (cases v) (auto simp: getType_scalar getType_JArr dest: getType_JObj_cases)

lemma mapE_member:
  "mapE f xs = Inr ys \<Longrightarrow> x \<in> set xs \<Longrightarrow> f x = Inr y \<Longrightarrow> y \<in> set ys"
  by (induction xs arbitrary: ys) (auto simp: bindE_def split: sum.splits)

lemma objectlike_loop_bound:
  assumes "getType c = Inr ''objectlike''"
  shows "loop_bound c = Inr (js_length c)"
proof -
  from assms obtain kvs where c: "c = JObj kvs"
    using objectlike_JObj by blast
  with assms show ?thesis
    by (auto simp: getType_def loop_bound_def js_length_def bindE_def
        split: if_splits sum.splits option.splits)
qed

lemma arraylike_cases:
  assumes "getType v = Inr ''arraylike''"
  shows "(\<exists>xs. v = JArr xs) \<or> (\<exists>kvs. v = JObj kvs)"
  using assms by (cases v) (auto simp: getType_scalar)

lemma arraylike_get_index:
  "getType v = Inr ''arraylike'' \<Longrightarrow> get_index v i = Inr (at_index v i)"
  using arraylike_cases [of v] by (auto simp: at_index_def)

lemma arraylike_loop_bound:
  assumes "getType c = Inr ''arraylike''"
  shows "loop_bound c = Inr (js_length c) \<and> 0 < js_length c"
proof -
  from arraylike_cases [OF assms] show ?thesis
  proof (elim disjE exE)
    fix xs assume "c = JArr xs"
    with assms show ?thesis
      by (auto simp: getType_JArr loop_bound_def js_length_def split: if_splits)
  next
    fix kvs assume "c = JObj kvs"
    with assms show ?thesis
      by (auto simp: getType_def loop_bound_def js_length_def bindE_def
          split: if_splits sum.splits option.splits)
  qed
qed

lemma check_candidate_tuple:
  assumes "getType x = Inr ''arraylike''"
    and "getType c = Inr ''arraylike''"
    and "\<not> each_clause c"
    and "getType (at_index c 0) = Inr ft"
  shows "check_candidate x c =
     bindE (mapE (\<lambda>i. JSONCheck (at_index x i) (at_index c i)) [0..<js_length c])
       (\<lambda>validArr. Inr (False \<notin> set validArr))"
proof -
  have no_each: "\<not> (ft = ''RegExp'' \<and> regexp_toString (at_index c 0) = ''/each/'')"
  proof
    assume a: "ft = ''RegExp'' \<and> regexp_toString (at_index c 0) = ''/each/''"
    with assms(4) obtain r where "at_index c 0 = JRegExp r"
      using getType_RegExp_iff by auto
    with a assms(2,3) show False
      by (simp add: each_clause_def arraylike_get_index)
  qed
  show ?thesis
    using assms(2,4) no_each arraylike_loop_bound [OF assms(2)]
    by (auto simp: check_candidate_def arraylike_get_index assms(1) filter_Not_empty)
qed

lemma mapE_all_True:
  "(\<exists>ys. mapE f xs = Inr ys \<and> False \<notin> set ys) \<longleftrightarrow> (\<forall>x \<in> set xs. f x = Inr True)"
proof (induction xs)
  case Nil
  show ?case by simp
next
  case (Cons x xs)
  show ?case
  proof (cases "f x")
    case (Inl e)
    then show ?thesis by simp
  next
    case (Inr b)
    show ?thesis
    proof (cases "mapE f xs")
      case (Inl e)
      with Inr Cons show ?thesis by auto
    next
      case r: (Inr ys)
      with Inr Cons show ?thesis by auto
    qed
  qed
qed

lemma check_candidate_first:
  assumes "getType c = Inr ''arraylike''" and "getType (at_index c 0) = Inl e"
  shows "check_candidate x c = Inl e"
  using assms by (simp add: check_candidate_def arraylike_get_index)

lemma js_length_JArr: "js_length (JArr xs) = length xs"
  by (simp add: js_length_def loop_bound_def)

lemma at_index_JArr: "at_index (JArr xs) i = (if i < length xs then xs ! i else JUndefined)"
  by (simp add: at_index_def)

text \<open>A candidate list with one candidate returns what the candidate returns.\<close>

lemma JSONCheck_single_candidate:
  assumes "getType x = Inr ''arraylike''"
  shows "JSONCheck x (JArr [c]) = check_candidate x c"
  using assms by (cases "check_candidate x c") (simp_all add: JSONCheck_candidates)

section \<open>The documented examples\<close>

text \<open>
  The model agrees with the expectations the repository states itself: the cases of
  \<open>getTypeTests\<close> that are data, and the examples 1, 2 and 4 in the comment above
  \<open>JSONCheck\<close>. In example 2 the price 17.79 is written 17 and the apostrophe of the
  product name is left out: only their types matter to the schema.
\<close>

lemma getTypeTests:
  "getType (JNum 23) = Inr ''number''"
  "getType (JStr ''Complex'') = Inr ''string''"
  "getType (JArr [JNum 1, JNum 2, JNum 3]) = Inr ''arraylike''"
  "getType (JBool True) = Inr ''boolean''"
  "getType (JBool False) = Inr ''boolean''"
  "getType (JArr []) = Inr ''Array''"
  "getType (JObj [(''key'', JNum 24), (''length'', JNum 4)]) = Inr ''objectlike''"
  "getType (JObj [(''key'', JStr ''hello''), (''key2'', JStr ''World'')]) = Inr ''objectlike''"
  "getType (JObj []) = Inr ''Object''"
  "getType JNull = Inr ''null''"
  "getType (JRegExp ''/[0-9A-Z]/'') = Inr ''RegExp''"
  by code_simp+

lemma example_employee_record:
  "JSONCheck
     (JObj [(''name'', JStr ''John Doe''), (''age'', JNum 32),
            (''adress'', JObj [(''country'', JStr ''USA''), (''city'', JStr ''Texas''),
                               (''postal'', JStr ''7148'')]),
            (''salary'', JNum 5000)])
     (JObj [(''name'', JStr ''string''), (''age'', JStr ''number''),
            (''adress'', JObj [(''country'', JStr ''string''), (''city'', JStr ''string''),
                               (''postal'', JStr ''string'')]),
            (''salary'', JStr ''number'')])
   = Inr True"
  by code_simp

lemma example_optional_keys:
  "JSONCheck
     (JObj [(''product_name'', JStr ''Jack Daniels''), (''price'', JNum 17),
            (''info'', JStr ''Nice alcohol...''), (''code'', JStr ''0123456789''),
            (''contents'', JNum 350), (''alcohol'', JNum 40),
            (''country'', JStr ''United States''), (''taste'', JStr ''Flexible & Friendly'')])
     (JObj [(''product_name'', JStr ''string''), (''price'', JStr ''number''),
            (''info'', JStr ''undefined|string''), (''code'', JStr ''number|string''),
            (''contents'', JStr ''number|string''), (''alcohol'', JStr ''number''),
            (''country'', JStr ''string''), (''type'', JStr ''undefined|string''),
            (''taste'', JStr ''undefined|string'')])
   = Inr True"
  by code_simp

lemma example_array_type:
  "JSONCheck
     (JArr [JObj [(''name'', JStr ''Google''), (''location'', JStr ''Mountain View, United states''),
                  (''tel'', JStr ''+0031-1234567''), (''sector'', JStr ''Education'')],
            JObj [(''name'', JStr ''Google''), (''sector'', JStr ''Tech'')]])
     (JArr [JArr [JRegExp ''/each/'',
                  JObj [(''name'', JStr ''string''), (''location'', JStr ''string''),
                        (''tel'', JStr ''string''), (''sector'', JStr ''string'')]]])
   = Inr False"
  by code_simp

section \<open>The claims\<close>

text \<open>
  Below, \<open>validate\<close> is \<open>JSONCheck\<close> and \<open>classify\<close> is \<open>getType\<close>; sequence-kind is the
  tag \<open>arraylike\<close> and keyed-kind is the tag \<open>objectlike\<close>.
\<close>

subsection \<open>C1: the each-clause and the empty array\<close>

text \<open>
  Claim C1 says that \<open>validate([], [[/each/, "number"]])\<close> is \<open>true\<close>. The code returns
  \<open>false\<close>: \<open>getType\<close> gives \<open>[]\<close> the tag \<open>Array\<close>, so line 241 does not take the
  candidate branch; line 282 then tries \<open>[/each/, "number"]\<close> as a list of alternatives for
  the whole input, and \<open>[]\<close> is neither that regular expression nor a number.
\<close>

theorem each_empty_counterexample:
  "JSONCheck (JArr []) (JArr [JArr [JRegExp ''/each/'', JStr ''number'']]) = Inr False"
  by code_simp

lemma each_number_candidate:
  assumes "\<forall>x \<in> set xs. \<exists>t. getType x = Inr t"
  shows "check_candidate (JArr xs) (JArr [JRegExp ''/each/'', JStr ''number''])
     = Inr (\<forall>x \<in> set xs. getType x = Inr ''number'')"
proof -
  have item: "bindE (mapE (JSONCheck x) [JStr ''number''])
        (\<lambda>res. Inr (length (filter (\<lambda>valid. valid = True) res) > 0))
      = Inr (getType x = Inr ''number'')" if "x \<in> set xs" for x
  proof -
    from that assms obtain t where "getType x = Inr t" by auto
    then show ?thesis
      by (auto simp: JSONCheck_piece scalar_match_def)
  qed
  have "mapE (\<lambda>x. bindE (mapE (JSONCheck x) [JStr ''number''])
        (\<lambda>res. Inr (length (filter (\<lambda>valid. valid = True) res) > 0))) xs
      = Inr (map (\<lambda>x. getType x = Inr ''number'') xs)"
    by (rule mapE_Inr) (rule item)
  then show ?thesis
    by (auto simp: check_candidate_def getType_scalar filter_empty_conv)
qed

text \<open>
  Claim C1, amended. For an array \<open>xs\<close> whose elements the classifier classifies,
  \<open>validate(xs, [[/each/, "number"]])\<close> is \<open>true\<close> exactly when \<open>xs\<close> is not empty and
  every element is a number. The empty array is tagged \<open>Array\<close>, not sequence-kind, and
  is rejected.
\<close>

theorem each_number_law:
  assumes "\<forall>x \<in> set xs. \<exists>t. getType x = Inr t"
  shows "JSONCheck (JArr xs) (JArr [JArr [JRegExp ''/each/'', JStr ''number'']])
     = Inr (xs \<noteq> [] \<and> (\<forall>x \<in> set xs. getType x = Inr ''number''))"
proof (cases "xs = []")
  case True
  have "JSONCheck (JArr []) (JArr [JArr [JRegExp ''/each/'', JStr ''number'']]) = Inr False"
    by code_simp
  with True show ?thesis by simp
next
  case False
  with assms show ?thesis
    by (simp add: JSONCheck_candidates getType_JArr each_number_candidate)
qed

theorem each_number_law_witness:
  "JSONCheck (JArr []) (JArr [JArr [JRegExp ''/each/'', JStr ''number'']]) = Inr False
   \<and> JSONCheck (JArr [JNum 1, JNum 2]) (JArr [JArr [JRegExp ''/each/'', JStr ''number'']]) = Inr True
   \<and> JSONCheck (JArr [JNum 1, JStr ''x'']) (JArr [JArr [JRegExp ''/each/'', JStr ''number'']]) = Inr False"
  using each_number_law [of "[]"] each_number_law [of "[JNum 1, JNum 2]"]
    each_number_law [of "[JNum 1, JStr ''x'']"]
  by (simp add: getType_scalar)

subsection \<open>C2: union\<close>

text \<open>
  Claim C2 (union law). For every input \<open>x\<close> and all strings \<open>a\<close> and \<open>b\<close>,
  \<open>validate(x, "a|b") == validate(x, "a") || validate(x, "b")\<close>: the pipe-joined schema
  gives exactly the outcome of the disjunction of its two parts, each applied to the whole
  input. The equation is between outcomes, so it also covers an input that \<open>getType\<close>
  cannot classify (both sides raise), and parts that contain pipes themselves.
\<close>

theorem union_law:
  "JSONCheck x (JStr (a @ ''|'' @ b)) = js_or (JSONCheck x (JStr a)) (JSONCheck x (JStr b))"
  by (cases "getType x") (simp_all add: JSONCheck_string split_on_append js_or_def)

theorem union_law_witness:
  "JSONCheck (JNum 5) (JStr ''string|number'')
     = js_or (JSONCheck (JNum 5) (JStr ''string'')) (JSONCheck (JNum 5) (JStr ''number''))
   \<and> JSONCheck (JNum 5) (JStr ''string'') = Inr False
   \<and> JSONCheck (JNum 5) (JStr ''number'') = Inr True
   \<and> JSONCheck (JNum 5) (JStr ''string|number'') = Inr True"
  using union_law [of "JNum 5" "''string''" "''number''"]
  by (simp add: JSONCheck_string getType_scalar scalar_match_def js_or_def)

subsection \<open>C3: extra keys\<close>

text \<open>
  Claim C3 says that adding an entry \<open>k: w\<close> to the input never changes the result for an
  object schema that does not mention \<open>k\<close>. It fails on the empty object: \<open>{}\<close> has the
  tag \<open>Object\<close> and is rejected by line 231, while \<open>{b: 1}\<close> is object-like and passes
  the schema \<open>{a: "undefined"}\<close>.
\<close>

theorem extra_keys_counterexample:
  "JSONCheck (JObj []) (JObj [(''a'', JStr ''undefined'')]) = Inr False
   \<and> JSONCheck (JObj [(''b'', JNum 1)]) (JObj [(''a'', JStr ''undefined'')]) = Inr True"
  by code_simp

text \<open>
  Claim C3, amended. Let the input be keyed-kind before and after the entry \<open>k: w\<close> is
  added (or replaced), and let the keyed-kind schema \<open>S\<close> have no key \<open>k\<close>. Then the
  result of \<open>validate\<close> is the same for both inputs.
\<close>

theorem extra_keys_ignored:
  assumes "getType (JObj kvs) = Inr ''objectlike''"
    and "getType (JObj kvs') = Inr ''objectlike''"
    and "map_of kvs' = (map_of kvs)(k \<mapsto> w)"
    and "getType S = Inr ''objectlike''"
    and "k \<notin> set (for_in_keys S)"
  shows "JSONCheck (JObj kvs') S = JSONCheck (JObj kvs) S"
proof -
  have "get_key (JObj kvs') j = get_key (JObj kvs) j" if "j \<in> set (for_in_keys S)" for j
    using that assms(3,5) by auto
  then have "forE (\<lambda>j. bindE (get_key (JObj kvs') j) (\<lambda>v. bindE (get_key S j) (\<lambda>s. JSONCheck v s)))
        (for_in_keys S)
      = forE (\<lambda>j. bindE (get_key (JObj kvs) j) (\<lambda>v. bindE (get_key S j) (\<lambda>s. JSONCheck v s)))
        (for_in_keys S)"
    by (intro forE_cong) auto
  with assms show ?thesis
    by (simp add: JSONCheck_objectlike)
qed

theorem extra_keys_ignored_witness:
  "JSONCheck (JObj [(''name'', JStr ''John Doe''), (''age'', JNum 32)]) (JObj [(''name'', JStr ''string'')])
     = JSONCheck (JObj [(''name'', JStr ''John Doe'')]) (JObj [(''name'', JStr ''string'')])
   \<and> JSONCheck (JObj [(''name'', JStr ''John Doe'')]) (JObj [(''name'', JStr ''string'')]) = Inr True"
proof -
  have a: "getType (JObj [(''name'', JStr ''John Doe'')]) = Inr ''objectlike''"
    by (simp add: getType_def)
  have b: "getType (JObj [(''name'', JStr ''John Doe''), (''age'', JNum 32)]) = Inr ''objectlike''"
    by (simp add: getType_def)
  have c: "map_of [(''name'', JStr ''John Doe''), (''age'', JNum 32)]
      = (map_of [(''name'', JStr ''John Doe'')])(''age'' \<mapsto> JNum 32)"
    by (auto simp: fun_eq_iff)
  have d: "getType (JObj [(''name'', JStr ''string'')]) = Inr ''objectlike''"
    by (simp add: getType_def)
  have e: "''age'' \<notin> set (for_in_keys (JObj [(''name'', JStr ''string'')]))"
    by simp
  have f: "JSONCheck (JObj [(''name'', JStr ''John Doe'')]) (JObj [(''name'', JStr ''string'')]) = Inr True"
    by code_simp
  show ?thesis
    using extra_keys_ignored [OF a b c d e] f by simp
qed

subsection \<open>C4: a missing key\<close>

text \<open>
  Claim C4 says that \<open>validate(input, {k: s}) == validate(undefined, s)\<close> for every input
  without the key \<open>k\<close>. It fails on the empty object, which has no key at all: line 231
  rejects it before any key is looked at, while \<open>undefined\<close> passes the schema
  \<open>"undefined"\<close>.
\<close>

theorem missing_key_counterexample:
  "JSONCheck (JObj []) (JObj [(''k'', JStr ''undefined'')]) = Inr False
   \<and> JSONCheck JUndefined (JStr ''undefined'') = Inr True"
  by code_simp

text \<open>
  Claim C4, amended. For a keyed-kind input without an own property \<open>k\<close>, where \<open>k\<close> is
  not a name inherited from \<open>Object.prototype\<close>, and a keyed-kind schema \<open>{k: s}\<close>:
  \<open>validate(input, {k: s}) == validate(undefined, s)\<close>.
\<close>

theorem missing_key_law:
  assumes "getType (JObj kvs) = Inr ''objectlike''"
    and "map_of kvs k = None"
    and "k \<notin> set object_prototype_keys"
    and "getType (JObj [(k, s)]) = Inr ''objectlike''"
  shows "JSONCheck (JObj kvs) (JObj [(k, s)]) = JSONCheck JUndefined s"
  using assms
  by (cases "JSONCheck JUndefined s")
    (simp_all add: JSONCheck_objectlike [of "JObj [(k, s)]" "JObj kvs"])

theorem missing_key_law_witness:
  "JSONCheck (JObj [(''info'', JStr ''x'')]) (JObj [(''code'', JStr ''undefined|string'')])
     = JSONCheck JUndefined (JStr ''undefined|string'')
   \<and> JSONCheck JUndefined (JStr ''undefined|string'') = Inr True
   \<and> JSONCheck (JObj [(''info'', JStr ''x'')]) (JObj [(''code'', JStr ''string'')]) = Inr False"
proof -
  have a: "getType (JObj [(''info'', JStr ''x'')]) = Inr ''objectlike''"
    by (simp add: getType_def)
  have b: "map_of [(''info'', JStr ''x'')] ''code'' = None"
    by simp
  have c: "''code'' \<notin> set object_prototype_keys"
    by (simp add: object_prototype_keys_def)
  have d: "getType (JObj [(''code'', s)]) = Inr ''objectlike''" for s
    by (simp add: getType_def)
  show ?thesis
    using missing_key_law [OF a b c d, of "JStr ''undefined|string''"]
      missing_key_law [OF a b c d, of "JStr ''string''"]
    by (simp add: JSONCheck_string getType_scalar scalar_match_def)
qed

subsection \<open>C5: type names\<close>

text \<open>
  Claim C5 (type-name law). Let the classifier give the tag \<open>c\<close> for the input \<open>x\<close>
  (it does for every scalar: lemma \<open>getType_scalar\<close>). For a schema string \<open>t\<close> with no
  pipe and no quote, \<open>validate(x, t)\<close> is \<open>true\<close> when \<open>t\<close> is that tag and \<open>false\<close> for
  every other type name.
\<close>

theorem typename_law:
  assumes "getType x = Inr c" and "CHR ''|'' \<notin> set t" and "CHR 0x22 \<notin> set t"
  shows "JSONCheck x (JStr t) = Inr (c = t)"
  using assms by (simp add: JSONCheck_piece scalar_match_def)

theorem typename_law_witness:
  "JSONCheck (JBool True) (JStr ''boolean'') = Inr True
   \<and> JSONCheck (JBool True) (JStr ''number'') = Inr False"
  using typename_law [of "JBool True" "''boolean''" "''boolean''"]
    typename_law [of "JBool True" "''boolean''" "''number''"]
  by (simp add: getType_scalar)

subsection \<open>C6: literals\<close>




subsection \<open>C7: tuples\<close>



subsection \<open>C8: exceptions\<close>

text \<open>
  Claim C8 says that \<open>validate\<close> ends, returns a boolean and never raises on JSON-like input
  and schema. It does end: \<open>JSONCheck\<close> is a total function, by the termination proof
  above. But it can raise. With a sequence-kind input, line 247 reads \<open>validatorItemArr[0]\<close>
  of every candidate, which raises a \<open>TypeError\<close> for the candidate \<open>null\<close>; the sibling
  branch of line 282 compares the same candidate by value and returns \<open>false\<close>. And
  \<open>getType\<close> calls \<open>input.hasOwnProperty\<close> on the input itself (line 259), which raises
  when the data has an own property of that name and a positive \<open>length\<close>.
\<close>

theorem null_candidate_raises:
  "JSONCheck (JArr [JStr ''x'']) (JArr [JNull]) = Inl TypeError
   \<and> JSONCheck (JStr ''x'') (JArr [JNull]) = Inr False
   \<and> JSONCheck (JObj [(''length'', JNum 1), (''hasOwnProperty'', JNum 5)]) (JStr ''string'')
       = Inl TypeError"
  by code_simp

subsection \<open>C9: a keyed candidate\<close>

text \<open>
  Claim C9 says that every keyed-kind candidate passes for a sequence-kind input because it
  has no numeric length. An object can have one: the candidate \<open>{length: 1, a: "string"}\<close>
  is keyed-kind, the loop of line 269 runs once and compares \<open>input[0]\<close> with the missing
  \<open>c[0]\<close>, that is with \<open>undefined\<close>, and the candidate fails.
\<close>

theorem keyed_candidate_counterexample:
  "getType (JObj [(''length'', JNum 1), (''a'', JStr ''string'')]) = Inr ''objectlike''
   \<and> JSONCheck (JArr [JNum 1, JNum 2]) (JArr [JObj [(''length'', JNum 1), (''a'', JStr ''string'')]])
       = Inr False"
  by code_simp

text \<open>
  Claim C9, amended. Let the input \<open>v\<close> be sequence-kind and the candidate \<open>c\<close> be
  keyed-kind, with a \<open>length\<close> that gives the loop no round (no such property, or one that
  is not a positive number) and a property \<open>0\<close> that, if present, is classified and is not
  the sentinel \<open>/each/\<close>. Then \<open>c\<close> passes, and \<open>validate(v, schema)\<close> is not \<open>false\<close> for
  any candidate list that contains \<open>c\<close>. So \<open>validate([1,2], [{a: "string"}])\<close> is \<open>true\<close>.
\<close>

theorem keyed_candidate_passes:
  assumes "getType v = Inr ''arraylike''"
    and "getType c = Inr ''objectlike''"
    and "getType (at_index c 0) = Inr t"
    and "\<not> each_clause c"
    and "js_length c = 0"
    and "c \<in> set cs"
  shows "check_candidate v c = Inr True \<and> JSONCheck v (JArr cs) \<noteq> Inr False"
proof -
  from assms(2) obtain kvs where c: "c = JObj kvs"
    using objectlike_JObj by blast
  then have first: "get_index c 0 = Inr (at_index c 0)"
    by (simp add: at_index_def)
  have no_each: "\<not> (t = ''RegExp'' \<and> regexp_toString (at_index c 0) = ''/each/'')"
  proof
    assume a: "t = ''RegExp'' \<and> regexp_toString (at_index c 0) = ''/each/''"
    with assms(3) obtain r where "at_index c 0 = JRegExp r"
      using getType_RegExp_iff by auto
    with a first assms(4) show False
      by (simp add: each_clause_def)
  qed
  have pass: "check_candidate v c = Inr True"
    using assms(2,3,5) first no_each objectlike_loop_bound [OF assms(2)]
    by (auto simp: check_candidate_def)
  from assms(6) have "cs \<noteq> []" by auto
  note unfold = JSONCheck_candidates [OF assms(1) this]
  have "JSONCheck v (JArr cs) \<noteq> Inr False"
  proof (cases "mapE (check_candidate v) cs")
    case (Inl e)
    then show ?thesis
      by (simp add: unfold)
  next
    case (Inr valid)
    with pass assms(6) have "True \<in> set valid"
      using mapE_member [of "check_candidate v" cs valid c True] by simp
    with Inr show ?thesis
      by (simp add: unfold)
  qed
  with pass show ?thesis by simp
qed

theorem keyed_candidate_passes_witness:
  "check_candidate (JArr [JNum 1, JNum 2]) (JObj [(''a'', JStr ''string'')]) = Inr True
   \<and> JSONCheck (JArr [JNum 1, JNum 2]) (JArr [JObj [(''a'', JStr ''string'')]]) = Inr True"
proof -
  have a: "getType (JArr [JNum 1, JNum 2]) = Inr ''arraylike''"
    by (simp add: getType_JArr)
  have b: "getType (JObj [(''a'', JStr ''string'')]) = Inr ''objectlike''"
    by (simp add: getType_def)
  have c: "getType (at_index (JObj [(''a'', JStr ''string'')]) 0) = Inr ''undefined''"
    by code_simp
  have d: "\<not> each_clause (JObj [(''a'', JStr ''string'')])"
    by code_simp
  have e: "js_length (JObj [(''a'', JStr ''string'')]) = 0"
    by code_simp
  have f: "JObj [(''a'', JStr ''string'')] \<in> set [JObj [(''a'', JStr ''string'')]]"
    by simp
  have g: "JSONCheck (JArr [JNum 1, JNum 2]) (JArr [JObj [(''a'', JStr ''string'')]]) = Inr True"
    by code_simp
  show ?thesis
    using keyed_candidate_passes [OF a b c d e f] g by simp
qed

subsection \<open>C10: empty containers\<close>

text \<open>
  Claim C10 (empty containers). The classifier gives the empty array the tag \<open>Array\<close> and
  the empty object the tag \<open>Object\<close>, neither sequence-kind nor keyed-kind. So for every
  keyed-kind schema \<open>S\<close> (an object with at least one key), \<open>validate({}, S)\<close> is
  \<open>false\<close>, also when every field of \<open>S\<close> permits \<open>undefined\<close>.
\<close>

theorem empty_containers:
  assumes "getType S = Inr ''objectlike''"
  shows "getType (JArr []) = Inr ''Array''
       \<and> getType (JObj []) = Inr ''Object''
       \<and> JSONCheck (JObj []) S = Inr False"
  using assms
  by (subst JSONCheck_unfold) (simp add: getType_JArr getType_JObj_Nil)

theorem empty_containers_witness:
  "getType (JObj [(''a'', JStr ''undefined|string'')]) = Inr ''objectlike''
   \<and> JSONCheck (JObj []) (JObj [(''a'', JStr ''undefined|string'')]) = Inr False
   \<and> JSONCheck JUndefined (JStr ''undefined|string'') = Inr True"
proof -
  have h: "getType (JObj [(''a'', JStr ''undefined|string'')]) = Inr ''objectlike''"
    by (simp add: getType_def)
  show ?thesis
    using h empty_containers [OF h]
    by (simp add: JSONCheck_string getType_scalar scalar_match_def)
qed

end
